theory Spec2Isabelle
  imports Main "HOL-Library.Word"
begin

unbundle bit_operations_syntax

section \<open>Data model of the FINN example driver\<close>

text \<open>
  The development embeds \<^verbatim>\<open>src/finn_examples/driver.py\<close>, the class
  \<^verbatim>\<open>FINNExampleOverlay\<close>. Python exceptions are values of \<open>error\<close>; a method
  that mutates \<^verbatim>\<open>self\<close> takes the driver state and returns the new one together
  with either the raised error or the returned value. Batch sizes and shape entries are
  natural numbers (the generated \<^verbatim>\<open>io_shape_dict\<close> holds positive dimensions).
\<close>

datatype error =
    AssertionError string
  | ValueError string
  | IndexError string
  | AttributeError string
  | TypeError string
  | Exception string
  | RangeError
  | WeightLoadError

text \<open>A FINN integer datatype: its bit width and its signedness.\<close>

record data_type =
  bitwidth :: nat
  is_signed :: bool

text \<open>A numpy array: its shape and its elements in row-major order.\<close>

record ndarray =
  shape :: "nat list"
  elems :: "int list"

text \<open>The \<^verbatim>\<open>io_shape_dict\<close> handed to the constructor, one field per key.\<close>

record shape_dict =
  key_idt :: data_type
  key_odt :: data_type
  key_ishape_normal :: "nat list"
  key_oshape_normal :: "nat list"
  key_ishape_folded :: "nat list"
  key_oshape_folded :: "nat list"
  key_ishape_packed :: "nat list"
  key_oshape_packed :: "nat list"

text \<open>A PYNQ buffer as returned by \<^verbatim>\<open>allocate\<close>.\<close>

record buffer =
  buf_id :: nat
  buf_shape :: "nat list"
  cacheable :: bool
  device_address :: nat
  buf_data :: "int list"

datatype chan = IDMA | ODMA

text \<open>
  What the driver does to its collaborators, in the order it does it: entering one of
  its own methods, register reads and writes on a DMA engine, the start and wait calls
  of the handle-based engines, allocation of a buffer, dropping the reference to a
  buffer, and the cache barriers of a buffer.
\<close>

datatype event =
    Enter string
  | RegRead chan nat "32 word"
  | RegWrite chan nat nat
  | DmaStart chan nat nat
  | HandleWait nat
  | Allocate nat "nat list" bool
  | Release nat
  | Flush nat
  | Invalidate nat

text \<open>
  The environment: the value the \<open>k\<close>-th read of the output DMA status register returns,
  whether the backend ever signals completion of a handle, the physical address of an
  allocated buffer, what the device has left in a buffer, and the runtime weights
  directory (\<open>None\<close>: no such directory; \<open>Some ok\<close>: the directory exists and reading and
  writing its weights succeeds iff \<open>ok\<close>).
\<close>

record hw =
  odma_status :: "nat \<Rightarrow> 32 word"
  handle_signals :: "nat \<Rightarrow> bool"
  phys_addr :: "nat \<Rightarrow> nat"
  dev_memory :: "nat \<Rightarrow> int list"
  rt_weights :: "bool option"

text \<open>
  The two functions imported from \<^verbatim>\<open>finn.util.data_packing\<close>, taken as parameters
  of the driver: array, datatype, (target shape,) \<^verbatim>\<open>reverse_endian\<close>,
  \<^verbatim>\<open>reverse_inner\<close>, \<^verbatim>\<open>fast_mode\<close>.
\<close>

record finn =
  finnpy_to_packed_bytearray ::
    "ndarray \<Rightarrow> data_type \<Rightarrow> bool \<Rightarrow> bool \<Rightarrow> bool \<Rightarrow> error + ndarray"
  packed_bytearray_to_finnpy ::
    "ndarray \<Rightarrow> data_type \<Rightarrow> nat list \<Rightarrow> bool \<Rightarrow> bool \<Rightarrow> bool \<Rightarrow> error + ndarray"

text \<open>
  The attributes of \<^verbatim>\<open>self\<close>, and the bookkeeping of the embedding: the trace
  of events, the number of status reads made, of buffers allocated and of handles
  issued so far.
\<close>

record driver =
  io_shape_dict :: shape_dict
  ibuf_packed_device :: "buffer option"
  obuf_packed_device :: "buffer option"
  obuf_packed :: "ndarray option"
  platform :: string
  batch_size :: nat
  odma_handle :: "nat option"
  trace :: "event list"
  nreads :: nat
  nalloc :: nat
  nhandles :: nat

definition log :: "event \<Rightarrow> driver \<Rightarrow> driver" where
  "log e s = s\<lparr>trace := trace s @ [e]\<rparr>"

section \<open>Shape properties\<close>

text \<open>
  \<^verbatim>\<open>ret = list(shape); ret[0] = self.batch_size; return tuple(ret)\<close>:
  the assignment raises on an empty shape.
\<close>

definition with_batch :: "nat \<Rightarrow> nat list \<Rightarrow> error + nat list" where
  "with_batch n ret =
     (case ret of
        [] \<Rightarrow> Inl (IndexError ''list assignment index out of range'')
      | d # ds \<Rightarrow> Inr (n # ds))"

definition idt :: "driver \<Rightarrow> data_type" where
  "idt s = key_idt (io_shape_dict s)"

definition odt :: "driver \<Rightarrow> data_type" where
  "odt s = key_odt (io_shape_dict s)"

definition ishape_normal :: "driver \<Rightarrow> error + nat list" where
  "ishape_normal s = with_batch (batch_size s) (key_ishape_normal (io_shape_dict s))"

definition oshape_normal :: "driver \<Rightarrow> error + nat list" where
  "oshape_normal s = with_batch (batch_size s) (key_oshape_normal (io_shape_dict s))"

definition ishape_folded :: "driver \<Rightarrow> error + nat list" where
  "ishape_folded s = with_batch (batch_size s) (key_ishape_folded (io_shape_dict s))"

definition oshape_folded :: "driver \<Rightarrow> error + nat list" where
  "oshape_folded s = with_batch (batch_size s) (key_oshape_folded (io_shape_dict s))"

definition ishape_packed :: "driver \<Rightarrow> error + nat list" where
  "ishape_packed s = with_batch (batch_size s) (key_ishape_packed (io_shape_dict s))"

definition oshape_packed :: "driver \<Rightarrow> error + nat list" where
  "oshape_packed s = with_batch (batch_size s) (key_oshape_packed (io_shape_dict s))"

section \<open>numpy operations the driver uses\<close>

text \<open>\<^verbatim>\<open>a.reshape(shp)\<close>: the element count must be preserved.\<close>

definition reshape :: "ndarray \<Rightarrow> nat list \<Rightarrow> error + ndarray" where
  "reshape a shp =
     (if prod_list (shape a) = prod_list shp then Inr (a\<lparr>shape := shp\<rparr>)
      else Inl (ValueError ''cannot reshape array''))"

fun chunks :: "nat \<Rightarrow> nat \<Rightarrow> 'a list \<Rightarrow> 'a list list" where
  "chunks 0 n xs = []"
| "chunks (Suc k) n xs = take n xs # chunks k n (drop n xs)"

text \<open>
  Broadcasting of \<^verbatim>\<open>np.copyto(dst, src)\<close>. A source of higher rank than the
  destination first loses leading axes of size one, as long as its rank is higher. Then the
  source shape, padded with leading ones to the rank of the destination, must agree with
  the destination in every axis or be one there; an axis of size one is repeated.
\<close>

fun strip_units :: "nat \<Rightarrow> nat list \<Rightarrow> nat list" where
  "strip_units r [] = []"
| "strip_units r (a # as) = (if r < length (a # as) \<and> a = 1 then strip_units r as else a # as)"

definition pad_shape :: "nat \<Rightarrow> nat list \<Rightarrow> nat list" where
  "pad_shape r shp = replicate (r - length shp) 1 @ shp"

fun broadcastable :: "nat list \<Rightarrow> nat list \<Rightarrow> bool" where
  "broadcastable [] [] = True"
| "broadcastable (a # as) (d # ds) = ((a = d \<or> a = 1) \<and> broadcastable as ds)"
| "broadcastable _ _ = False"

fun broadcast_to :: "nat list \<Rightarrow> nat list \<Rightarrow> int list \<Rightarrow> int list" where
  "broadcast_to (a # as) (d # ds) xs =
     (if a = d then concat (map (broadcast_to as ds) (chunks a (prod_list as) xs))
      else concat (replicate d (broadcast_to as ds xs)))"
| "broadcast_to _ _ xs = xs"

definition copyto :: "nat list \<Rightarrow> ndarray \<Rightarrow> error + int list" where
  "copyto dst src =
     (let shp = strip_units (length dst) (shape src)
      in if length shp \<le> length dst \<and> broadcastable (pad_shape (length dst) shp) dst
         then Inr (broadcast_to (pad_shape (length dst) shp) dst (elems src))
         else Inl (ValueError ''could not broadcast input array''))"

section \<open>Buffers and the batch size\<close>

text \<open>
  \<^verbatim>\<open>allocate(shape=shp, dtype=np.uint8, cacheable=c)\<close>. The buffer gets the next
  identity and the address the environment assigns to it; its contents, which the driver
  never reads before writing them, are taken to be zeros.
\<close>

definition allocate :: "hw \<Rightarrow> nat list \<Rightarrow> bool \<Rightarrow> driver \<Rightarrow> buffer \<times> driver" where
  "allocate h shp c s =
     (\<lparr>buf_id = nalloc s, buf_shape = shp, cacheable = c,
       device_address = phys_addr h (nalloc s),
       buf_data = replicate (prod_list shp) 0\<rparr>,
      log (Allocate (nalloc s) shp c) (s\<lparr>nalloc := nalloc s + 1\<rparr>))"

text \<open>The two statements of the setter that set an old buffer to \<^verbatim>\<open>None\<close>.\<close>

definition drop_ibuf :: "driver \<Rightarrow> driver" where
  "drop_ibuf s =
     (case ibuf_packed_device s of
        None \<Rightarrow> s
      | Some b \<Rightarrow> log (Release (buf_id b)) (s\<lparr>ibuf_packed_device := None\<rparr>))"

definition drop_obuf :: "driver \<Rightarrow> driver" where
  "drop_obuf s =
     (case obuf_packed_device s of
        None \<Rightarrow> s
      | Some b \<Rightarrow> log (Release (buf_id b)) (s\<lparr>obuf_packed_device := None\<rparr>))"

text \<open>
  The setter of \<^verbatim>\<open>batch_size\<close> (lines 193 to 212). Only the platform
  \<^verbatim>\<open>alveo\<close> allocates without \<^verbatim>\<open>cacheable=True\<close>.
\<close>

definition batch_size_setter :: "hw \<Rightarrow> nat \<Rightarrow> driver \<Rightarrow> (error + unit) \<times> driver" where
  "batch_size_setter h v s =
     (let s1 = drop_obuf (drop_ibuf (s\<lparr>batch_size := v\<rparr>));
          c = (platform s1 \<noteq> ''alveo'')
      in case ishape_packed s1 of
           Inl e \<Rightarrow> (Inl e, s1)
         | Inr ishp \<Rightarrow>
             (let (ib, s2) = allocate h ishp c s1;
                  s3 = s2\<lparr>ibuf_packed_device := Some ib\<rparr>
              in case oshape_packed s3 of
                   Inl e \<Rightarrow> (Inl e, s3)
                 | Inr oshp \<Rightarrow>
                     (let (ob, s4) = allocate h oshp c s3
                      in (Inr (),
                          s4\<lparr>obuf_packed_device := Some ob,
                             obuf_packed :=
                               Some \<lparr>shape = buf_shape ob, elems = buf_data ob\<rparr>\<rparr>))))"

section \<open>The stages of the pipeline\<close>

definition fold_input :: "driver \<Rightarrow> ndarray \<Rightarrow> (error + ndarray) \<times> driver" where
  "fold_input s ibuf_normal =
     (let s1 = log (Enter ''fold_input'') s
      in case ishape_normal s1 of
           Inl e \<Rightarrow> (Inl e, s1)
         | Inr n \<Rightarrow>
             if shape ibuf_normal \<noteq> n then (Inl (AssertionError []), s1)
             else (case ishape_folded s1 of
                     Inl e \<Rightarrow> (Inl e, s1)
                   | Inr f \<Rightarrow> (reshape ibuf_normal f, s1)))"

definition pack_input :: "finn \<Rightarrow> driver \<Rightarrow> ndarray \<Rightarrow> (error + ndarray) \<times> driver" where
  "pack_input lib s ibuf_folded =
     (let s1 = log (Enter ''pack_input'') s
      in (finnpy_to_packed_bytearray lib ibuf_folded (idt s1) True True True, s1))"

definition unpack_output :: "finn \<Rightarrow> driver \<Rightarrow> ndarray \<Rightarrow> (error + ndarray) \<times> driver" where
  "unpack_output lib s obuf =
     (let s1 = log (Enter ''unpack_output'') s
      in case oshape_folded s1 of
           Inl e \<Rightarrow> (Inl e, s1)
         | Inr f \<Rightarrow> (packed_bytearray_to_finnpy lib obuf (odt s1) f True True True, s1))"

definition unfold_output :: "driver \<Rightarrow> ndarray \<Rightarrow> (error + ndarray) \<times> driver" where
  "unfold_output s obuf_folded =
     (let s1 = log (Enter ''unfold_output'') s
      in case oshape_normal s1 of
           Inl e \<Rightarrow> (Inl e, s1)
         | Inr n \<Rightarrow> (reshape obuf_folded n, s1))"

definition copy_input_data_to_device :: "driver \<Rightarrow> ndarray \<Rightarrow> (error + unit) \<times> driver" where
  "copy_input_data_to_device s data =
     (let s1 = log (Enter ''copy_input_data_to_device'') s
      in case ibuf_packed_device s1 of
           None \<Rightarrow> (Inl (TypeError ''copyto: dst is None''), s1)
         | Some b \<Rightarrow>
             (case copyto (buf_shape b) data of
                Inl e \<Rightarrow> (Inl e, s1)
              | Inr xs \<Rightarrow>
                  (Inr (),
                   log (Flush (buf_id b))
                     (s1\<lparr>ibuf_packed_device := Some (b\<lparr>buf_data := xs\<rparr>)\<rparr>))))"

text \<open>
  \<^verbatim>\<open>copy_output_data_from_device(data)\<close> writes into the array it is given; the
  written array is returned, and the caller, which passes \<^verbatim>\<open>self.obuf_packed\<close>,
  stores it back.
\<close>

definition copy_output_data_from_device ::
  "hw \<Rightarrow> driver \<Rightarrow> ndarray \<Rightarrow> (error + ndarray) \<times> driver" where
  "copy_output_data_from_device h s data =
     (let s1 = log (Enter ''copy_output_data_from_device'') s
      in case obuf_packed_device s1 of
           None \<Rightarrow> (Inl (AttributeError ''invalidate''), s1)
         | Some b \<Rightarrow>
             (let b1 = b\<lparr>buf_data := dev_memory h (buf_id b)\<rparr>;
                  s2 = log (Invalidate (buf_id b)) (s1\<lparr>obuf_packed_device := Some b1\<rparr>)
              in case copyto (shape data) \<lparr>shape = buf_shape b1, elems = buf_data b1\<rparr> of
                   Inl e \<Rightarrow> (Inl e, s2)
                 | Inr xs \<Rightarrow> (Inr (data\<lparr>elems := xs\<rparr>), s2)))"

section \<open>The transfer engine\<close>

text \<open>\<^verbatim>\<open>self.odma.read(0x00)\<close>: the next value of the status register.\<close>

definition odma_read :: "hw \<Rightarrow> driver \<Rightarrow> 32 word \<times> driver" where
  "odma_read h s =
     (odma_status h (nreads s),
      log (RegRead ODMA 0 (odma_status h (nreads s))) (s\<lparr>nreads := nreads s + 1\<rparr>))"

text \<open>
  The loop \<^verbatim>\<open>while status & 0x2 == 0: status = self.odma.read(0x00)\<close>. It need
  not terminate; \<open>None\<close> is the run that never returns.
\<close>

partial_function (option) poll :: "hw \<Rightarrow> 32 word \<Rightarrow> driver \<Rightarrow> driver option" where
  "poll h status s =
     (if status AND 2 = 0 then poll h (fst (odma_read h s)) (snd (odma_read h s))
      else Some s)"

declare poll.simps [code]

definition wait_until_finished :: "hw \<Rightarrow> driver \<Rightarrow> ((error + unit) \<times> driver) option" where
  "wait_until_finished h s =
     (let s1 = log (Enter ''wait_until_finished'') s
      in if platform s1 = ''zynq-iodma'' then
           (case poll h (fst (odma_read h s1)) (snd (odma_read h s1)) of
              None \<Rightarrow> None
            | Some s2 \<Rightarrow> Some (Inr (), s2))
         else if platform s1 = ''alveo'' then
           (case odma_handle s1 of
              None \<Rightarrow> Some (Inl (AssertionError ''No odma_handle to wait on''), s1)
            | Some k \<Rightarrow>
                if handle_signals h k
                then Some (Inr (), (log (HandleWait k) s1)\<lparr>odma_handle := None\<rparr>)
                else None)
         else Some (Inl (Exception (''Unrecognized platform: '' @ platform s1)), s1))"

text \<open>
  The platform branches of \<^verbatim>\<open>execute_on_buffers\<close> (lines 278 to 292), which start the
  two engines for \<open>n\<close> samples.
\<close>

definition launch :: "hw \<Rightarrow> nat \<Rightarrow> driver \<Rightarrow> (error + unit) \<times> driver" where
  "launch h n s =
     (if platform s = ''zynq-iodma'' then
        (let (st, s1) = odma_read h s
         in if st AND 4 = 0 then (Inl (AssertionError ''Output DMA is not idle''), s1)
            else (case ibuf_packed_device s1 of
                    None \<Rightarrow> (Inl (AttributeError ''device_address''), s1)
                  | Some ib \<Rightarrow>
                      (let s2 = log (RegWrite IDMA 0x1C n)
                                  (log (RegWrite IDMA 0x10 (device_address ib)) s1)
                       in case obuf_packed_device s2 of
                            None \<Rightarrow> (Inl (AttributeError ''device_address''), s2)
                          | Some ob \<Rightarrow>
                              (Inr (),
                               log (RegWrite ODMA 0x00 1)
                                 (log (RegWrite IDMA 0x00 1)
                                   (log (RegWrite ODMA 0x1C n)
                                     (log (RegWrite ODMA 0x10 (device_address ob)) s2)))))))
      else if platform s = ''alveo'' then
        (if odma_handle s \<noteq> None
         then (Inl (AssertionError ''Output DMA is already running''), s)
         else (case ibuf_packed_device s of
                 None \<Rightarrow> (Inl (TypeError ''start: buffer is None''), s)
               | Some ib \<Rightarrow>
                   (let s1 = log (DmaStart IDMA (buf_id ib) n) s
                    in case obuf_packed_device s1 of
                         None \<Rightarrow> (Inl (TypeError ''start: buffer is None''), s1)
                       | Some ob \<Rightarrow>
                           (Inr (),
                            (log (DmaStart ODMA (buf_id ob) n) s1)
                              \<lparr>odma_handle := Some (nhandles s1),
                               nhandles := nhandles s1 + 1\<rparr>))))
      else (Inl (Exception (''Unrecognized platform: '' @ platform s)), s))"

text \<open>
  \<^verbatim>\<open>execute_on_buffers(asynch, batch_size)\<close>; an omitted \<^verbatim>\<open>batch_size\<close> is
  \<open>None\<close>. The method waits when \<^verbatim>\<open>asynch is False\<close>.
\<close>

definition execute_on_buffers ::
  "hw \<Rightarrow> bool \<Rightarrow> nat option \<Rightarrow> driver \<Rightarrow> ((error + unit) \<times> driver) option" where
  "execute_on_buffers h asynch bs s =
     (let s1 = log (Enter ''execute_on_buffers'') s;
          n = (case bs of None \<Rightarrow> batch_size s1 | Some b \<Rightarrow> b)
      in if \<not> n \<le> batch_size s1
         then Some (Inl (AssertionError ''Specified batch_size is too large.''), s1)
         else (case launch h n s1 of
                 (Inl e, s2) \<Rightarrow> Some (Inl e, s2)
               | (Inr u, s2) \<Rightarrow>
                   if asynch = False then wait_until_finished h s2 else Some (Inr (), s2)))"

section \<open>The session\<close>

definition execute ::
  "finn \<Rightarrow> hw \<Rightarrow> driver \<Rightarrow> ndarray \<Rightarrow> ((error + ndarray) \<times> driver) option" where
  "execute lib h s input_npy =
     (case fold_input s input_npy of
        (Inl e, s1) \<Rightarrow> Some (Inl e, s1)
      | (Inr ibuf_folded, s1) \<Rightarrow>
     (case pack_input lib s1 ibuf_folded of
        (Inl e, s2) \<Rightarrow> Some (Inl e, s2)
      | (Inr ibuf_packed, s2) \<Rightarrow>
     (case copy_input_data_to_device s2 ibuf_packed of
        (Inl e, s3) \<Rightarrow> Some (Inl e, s3)
      | (Inr u, s3) \<Rightarrow>
     (case execute_on_buffers h False None s3 of
        None \<Rightarrow> None
      | Some (Inl e, s4) \<Rightarrow> Some (Inl e, s4)
      | Some (Inr u, s4) \<Rightarrow>
     (case obuf_packed s4 of
        None \<Rightarrow> Some (Inl (AttributeError ''obuf_packed''), s4)
      | Some data \<Rightarrow>
     (case copy_output_data_from_device h s4 data of
        (Inl e, s5) \<Rightarrow> Some (Inl e, s5)
      | (Inr data', s5) \<Rightarrow>
     (case unpack_output lib (s5\<lparr>obuf_packed := Some data'\<rparr>) data' of
        (Inl e, s6) \<Rightarrow> Some (Inl e, s6)
      | (Inr obuf_folded, s6) \<Rightarrow>
     (case unfold_output s6 obuf_folded of
        (Inl e, s7) \<Rightarrow> Some (Inl e, s7)
      | (Inr obuf_normal, s7) \<Rightarrow> Some (Inr obuf_normal, s7)))))))))"

text \<open>
  \<^verbatim>\<open>load_runtime_weights(flush_accel)\<close>: nothing to do without the directory;
  otherwise the weights are read and written (the environment says whether that
  succeeds) and the accelerator is run once to flush stale weights.
\<close>

definition load_runtime_weights ::
  "hw \<Rightarrow> bool \<Rightarrow> driver \<Rightarrow> ((error + unit) \<times> driver) option" where
  "load_runtime_weights h flush_accel s =
     (let s1 = log (Enter ''load_runtime_weights'') s
      in case rt_weights h of
           None \<Rightarrow> Some (Inr (), s1)
         | Some ok \<Rightarrow>
             if \<not> ok then Some (Inl WeightLoadError, s1)
             else if flush_accel then execute_on_buffers h False None s1
             else Some (Inr (), s1))"

text \<open>
  The constructor (lines 46 to 99), after the overlay itself has been loaded: the
  attributes are set, the batch size setter allocates the buffers, the platform is
  checked, and the runtime weights are loaded.
\<close>

definition init ::
  "hw \<Rightarrow> string \<Rightarrow> shape_dict \<Rightarrow> nat \<Rightarrow> ((error + unit) \<times> driver) option" where
  "init h pf d bsz =
     (let s0 = \<lparr>io_shape_dict = d, ibuf_packed_device = None, obuf_packed_device = None,
                obuf_packed = None, platform = pf, batch_size = bsz, odma_handle = None,
                trace = [Enter ''__init__''], nreads = 0, nalloc = 0, nhandles = 0\<rparr>
      in case batch_size_setter h bsz s0 of
           (Inl e, s1) \<Rightarrow> Some (Inl e, s1)
         | (Inr u, s1) \<Rightarrow>
             if platform s1 = ''alveo'' then load_runtime_weights h True (s1\<lparr>odma_handle := None\<rparr>)
             else if platform s1 = ''zynq-iodma'' then load_runtime_weights h True s1
             else Some (Inl (ValueError ''Supported platforms are zynq-iodma alveo''), s1))"

section \<open>The bit packer\<close>

text \<open>
  The packing functions of \<^verbatim>\<open>finn.util.data_packing\<close> are not part of the
  sources at hand. The definitions of this section, up to \<open>spec_packer\<close>, are written
  from section 4.2 of the specification.
\<close>

text \<open>
  Modelled from the spec: the serialisation of an element "using exactly \<open>w\<close> bits",
  most significant bit first (part of the missing packing functions): the \<open>n\<close> low bits
  of the two's-complement representation of a value.
\<close>

fun to_bits :: "nat \<Rightarrow> int \<Rightarrow> bool list" where
  "to_bits 0 v = []"
| "to_bits (Suc n) v = to_bits n (v div 2) @ [odd v]"

text \<open>
  Modelled from the spec: the number a bit string denotes, most significant bit first (the
  byte of eight packed bits, and the raw value of a \<open>w\<close>-bit field; part of the missing
  packing functions).
\<close>

definition from_bits :: "bool list \<Rightarrow> int" where
  "from_bits bs = foldl (\<lambda>a b. 2 * a + (if b then 1 else 0)) 0 bs"

text \<open>
  Modelled from the spec: the test that a value "can be represented in \<open>w\<close> bits for the
  given signedness" (the datatype class of FINN is missing).
\<close>

definition representable :: "data_type \<Rightarrow> int \<Rightarrow> bool" where
  "representable dt v =
     (if is_signed dt then - (2 ^ (bitwidth dt - 1)) \<le> v \<and> v < 2 ^ (bitwidth dt - 1)
      else 0 \<le> v \<and> v < 2 ^ bitwidth dt)"

text \<open>
  Modelled from the spec: the reading of a \<open>w\<close>-bit field, with "two's-complement sign
  extension when the field's top bit is set and the datatype is signed".
\<close>

definition decode :: "data_type \<Rightarrow> int \<Rightarrow> int" where
  "decode dt n =
     (if is_signed dt \<and> 2 ^ (bitwidth dt - 1) \<le> n then n - 2 ^ bitwidth dt else n)"

text \<open>
  Modelled from the spec: the "output length is \<open>Ceil(w * groupSize / 8)\<close> bytes per word"
  (part of the missing packing functions).
\<close>

definition word_bytes :: "data_type \<Rightarrow> nat \<Rightarrow> nat" where
  "word_bytes dt g = (bitwidth dt * g + 7) div 8"

text \<open>
  Modelled from the spec: packing of one innermost group (the function
  \<^verbatim>\<open>finnpy_to_packed_bytearray\<close> is missing). Each element takes exactly \<open>w\<close> bits,
  the elements are concatenated most significant bit first, in reverse order under
  \<^verbatim>\<open>reverse_inner\<close>; the final partial byte is padded with zero bits; the bytes of the
  word are reversed under \<^verbatim>\<open>reverse_endian\<close>.
\<close>

definition pack_word :: "data_type \<Rightarrow> bool \<Rightarrow> bool \<Rightarrow> int list \<Rightarrow> int list" where
  "pack_word dt reverse_endian reverse_inner xs =
     (let ys = (if reverse_inner then rev xs else xs);
          bits = concat (map (to_bits (bitwidth dt)) ys);
          n = word_bytes dt (length xs);
          padded = bits @ replicate (8 * n - length bits) False;
          bytes = map from_bits (chunks n 8 padded)
      in if reverse_endian then rev bytes else bytes)"

text \<open>
  Modelled from the spec: unpacking of one word into \<open>g\<close> elements, the "exact inverse"
  (the function \<^verbatim>\<open>packed_bytearray_to_finnpy\<close> is missing).
\<close>

definition unpack_word :: "data_type \<Rightarrow> bool \<Rightarrow> bool \<Rightarrow> nat \<Rightarrow> int list \<Rightarrow> int list" where
  "unpack_word dt reverse_endian reverse_inner g bytes =
     (let bs = (if reverse_endian then rev bytes else bytes);
          bits = concat (map (to_bits 8) bs);
          vals = map (\<lambda>c. decode dt (from_bits c))
                   (chunks g (bitwidth dt) (take (bitwidth dt * g) bits))
      in if reverse_inner then rev vals else vals)"

text \<open>
  Modelled from the spec: \<^verbatim>\<open>finnpy_to_packed_bytearray\<close>, which is missing. The
  innermost axis is the packing group; the word is "replicated across all outer
  dimensions"; a value that is not representable is a range error. The fast mode agrees
  with the reference mode, so the flag is not consulted. An array without axes has no
  innermost group and is refused.
\<close>

definition spec_pack ::
  "ndarray \<Rightarrow> data_type \<Rightarrow> bool \<Rightarrow> bool \<Rightarrow> bool \<Rightarrow> error + ndarray" where
  "spec_pack a dt reverse_endian reverse_inner fast_mode =
     (if shape a = [] then Inl (ValueError ''no innermost dimension'')
      else if \<exists>v\<in>set (elems a). \<not> representable dt v then Inl RangeError
      else Inr \<lparr>shape = butlast (shape a) @ [word_bytes dt (last (shape a))],
                elems = concat (map (pack_word dt reverse_endian reverse_inner)
                                  (chunks (prod_list (butlast (shape a))) (last (shape a))
                                     (elems a)))\<rparr>)"

text \<open>
  Modelled from the spec: \<^verbatim>\<open>packed_bytearray_to_finnpy\<close>, which is missing. The
  packed array must have the shape that packing gives an array of the target shape.
\<close>

definition spec_unpack ::
  "ndarray \<Rightarrow> data_type \<Rightarrow> nat list \<Rightarrow> bool \<Rightarrow> bool \<Rightarrow> bool \<Rightarrow> error + ndarray" where
  "spec_unpack p dt target reverse_endian reverse_inner fast_mode =
     (if target = [] then Inl (ValueError ''no innermost dimension'')
      else if shape p \<noteq> butlast target @ [word_bytes dt (last target)]
      then Inl (ValueError ''packed shape does not match the target shape'')
      else Inr \<lparr>shape = target,
                elems = concat (map (unpack_word dt reverse_endian reverse_inner (last target))
                                  (chunks (prod_list (butlast target))
                                     (word_bytes dt (last target)) (elems p)))\<rparr>)"

definition spec_packer :: finn where
  "spec_packer = \<lparr>finnpy_to_packed_bytearray = spec_pack,
                  packed_bytearray_to_finnpy = spec_unpack\<rparr>"

text \<open>An array is well formed when it has as many elements as its shape says.\<close>

definition well_formed :: "ndarray \<Rightarrow> bool" where
  "well_formed a = (length (elems a) = prod_list (shape a))"

section \<open>Observations on traces, and a concrete session\<close>

text \<open>The status reads with indices from \<open>a\<close> up to, not including, \<open>b\<close>.\<close>

definition reads_of :: "hw \<Rightarrow> nat \<Rightarrow> nat \<Rightarrow> event list" where
  "reads_of h a b = map (\<lambda>j. RegRead ODMA 0 (odma_status h j)) [a..<b]"

text \<open>The methods of the driver entered along a trace, in order.\<close>

fun calls :: "event list \<Rightarrow> string list" where
  "calls [] = []"
| "calls (Enter m # es) = m # calls es"
| "calls (e # es) = calls es"

text \<open>
  A session on the fixture of the specification: 4-bit unsigned elements, folded shape
  \<open>(1, 2, 4)\<close>, two packed bytes per word. The status register of \<open>ex_hw\<close> reads
  idle, busy, busy, done; that of \<open>ex_stuck\<close> never shows the done bit.
\<close>

definition ex_dict :: shape_dict where
  "ex_dict = \<lparr>key_idt = \<lparr>bitwidth = 4, is_signed = False\<rparr>,
              key_odt = \<lparr>bitwidth = 4, is_signed = False\<rparr>,
              key_ishape_normal = [1, 8], key_oshape_normal = [1, 8],
              key_ishape_folded = [1, 2, 4], key_oshape_folded = [1, 2, 4],
              key_ishape_packed = [1, 2, 2], key_oshape_packed = [1, 2, 2]\<rparr>"

definition ex_hw :: hw where
  "ex_hw = \<lparr>odma_status = (\<lambda>k. if k = 0 then 4 else if k = 3 then 2 else 0),
            handle_signals = (\<lambda>k. True),
            phys_addr = (\<lambda>i. 4096 + i),
            dev_memory = (\<lambda>i. [0x21, 0x43, 0x65, 0x87]),
            rt_weights = None\<rparr>"

definition ex_stuck :: hw where
  "ex_stuck = ex_hw\<lparr>odma_status := (\<lambda>k. 0)\<rparr>"

definition ex_driver :: "string \<Rightarrow> driver" where
  "ex_driver pf =
     \<lparr>io_shape_dict = ex_dict,
      ibuf_packed_device = Some \<lparr>buf_id = 0, buf_shape = [1, 2, 2], cacheable = (pf \<noteq> ''alveo''),
                                 device_address = 4096, buf_data = [0, 0, 0, 0]\<rparr>,
      obuf_packed_device = Some \<lparr>buf_id = 1, buf_shape = [1, 2, 2], cacheable = (pf \<noteq> ''alveo''),
                                 device_address = 4097, buf_data = [0, 0, 0, 0]\<rparr>,
      obuf_packed = Some \<lparr>shape = [1, 2, 2], elems = [0, 0, 0, 0]\<rparr>,
      platform = pf, batch_size = 1, odma_handle = None,
      trace = [], nreads = 0, nalloc = 2, nhandles = 0\<rparr>"

text \<open>An explicit batch size that does not exceed the configured one, or none.\<close>

definition fits :: "nat option \<Rightarrow> driver \<Rightarrow> bool" where
  "fits bs s = (case bs of None \<Rightarrow> True | Some b \<Rightarrow> b \<le> batch_size s)"

text \<open>
  The engine can take a launch and will complete it: on \<^verbatim>\<open>zynq-iodma\<close> the next
  status read shows the idle bit and a later one the done bit; on \<^verbatim>\<open>alveo\<close> no
  handle is held and the backend signals completion of the next one.
\<close>

definition engine_ready :: "hw \<Rightarrow> driver \<Rightarrow> bool" where
  "engine_ready h s =
     (if platform s = ''zynq-iodma''
      then odma_status h (nreads s) AND 4 \<noteq> 0 \<and> (\<exists>m>nreads s. odma_status h m AND 2 \<noteq> 0)
      else platform s = ''alveo'' \<and> odma_handle s = None \<and> handle_signals h (nhandles s))"

text \<open>
  The driver after fold, pack and upload: the packed bytes \<open>xs\<close> are in the input buffer
  \<open>ib\<close>, which has been flushed.
\<close>

definition after_upload :: "driver \<Rightarrow> buffer \<Rightarrow> int list \<Rightarrow> driver" where
  "after_upload s ib xs =
     s\<lparr>ibuf_packed_device := Some (ib\<lparr>buf_data := xs\<rparr>),
       trace := trace s @ [Enter ''fold_input'', Enter ''pack_input'',
                           Enter ''copy_input_data_to_device'', Flush (buf_id ib)]\<rparr>"



text \<open>The release events of the buffers a driver holds.\<close>

definition released :: "driver \<Rightarrow> event list" where
  "released s =
     (case ibuf_packed_device s of None \<Rightarrow> [] | Some b \<Rightarrow> [Release (buf_id b)])
     @ (case obuf_packed_device s of None \<Rightarrow> [] | Some b \<Rightarrow> [Release (buf_id b)])"

text \<open>
  The \<^verbatim>\<open>alveo\<close> session after a non-blocking launch, and a shape dictionary whose
  folded shapes do not have the element counts of its normal shapes.
\<close>

definition ex_inflight :: driver where
  "ex_inflight = (ex_driver ''alveo'')
       \<lparr>odma_handle := Some 0, nhandles := 1,
        trace := [Enter ''execute_on_buffers'', DmaStart IDMA 0 1, DmaStart ODMA 1 1]\<rparr>"

definition ex_bad_dict :: shape_dict where
  "ex_bad_dict = ex_dict\<lparr>key_ishape_folded := [1, 2, 3], key_oshape_folded := [1, 5, 5]\<rparr>"

section \<open>Basic facts\<close>

lemma log_fields [simp]:
  "io_shape_dict (log e s) = io_shape_dict s"
  "ibuf_packed_device (log e s) = ibuf_packed_device s"
  "obuf_packed_device (log e s) = obuf_packed_device s"
  "obuf_packed (log e s) = obuf_packed s"
  "platform (log e s) = platform s"
  "batch_size (log e s) = batch_size s"
  "odma_handle (log e s) = odma_handle s"
  "nreads (log e s) = nreads s"
  "nalloc (log e s) = nalloc s"
  "nhandles (log e s) = nhandles s"
  "trace (log e s) = trace s @ [e]"
  by (simp_all add: log_def)

lemma poll_done: "status AND 2 \<noteq> 0 \<Longrightarrow> poll h status s = Some s"
  by (subst poll.simps) simp

lemma poll_busy:
  "status AND 2 = 0 \<Longrightarrow> poll h status s = poll h (fst (odma_read h s)) (snd (odma_read h s))"
  by (subst poll.simps) simp

lemma reads_of_Cons:
  "a < b \<Longrightarrow> reads_of h a b = RegRead ODMA 0 (odma_status h a) # reads_of h (Suc a) b"
  by (simp add: reads_of_def upt_conv_Cons del: upt_Suc)

lemma reads_of_Nil: "reads_of h a a = []"
  by (simp add: reads_of_def)

lemma poll_returns:
  "nreads s = Suc k \<Longrightarrow> k \<le> m \<Longrightarrow> odma_status h m AND 2 \<noteq> 0 \<Longrightarrow>
   (\<forall>j. k \<le> j \<and> j < m \<longrightarrow> odma_status h j AND 2 = 0) \<Longrightarrow>
   poll h (odma_status h k) s =
     Some (s\<lparr>trace := trace s @ reads_of h (Suc k) (Suc m), nreads := Suc m\<rparr>)"
proof (induction "m - k" arbitrary: k s)
  case 0
  then have "k = m" by simp
  with 0 show ?case by (simp add: poll_done reads_of_Nil)
next
  case (Suc d)
  then have lt: "k < m" by simp
  with Suc.prems have busy: "odma_status h k AND 2 = 0" by simp
  let ?s = "snd (odma_read h s)"
  have n: "nreads ?s = Suc (Suc k)" using Suc.prems by (simp add: odma_read_def log_def)
  have "poll h (odma_status h (Suc k)) ?s =
     Some (?s\<lparr>trace := trace ?s @ reads_of h (Suc (Suc k)) (Suc m), nreads := Suc m\<rparr>)"
    using Suc.hyps(1)[of "Suc k" ?s] Suc.hyps(2) n lt Suc.prems by auto
  moreover have "fst (odma_read h s) = odma_status h (Suc k)"
    using Suc.prems by (simp add: odma_read_def)
  ultimately show ?case using busy lt Suc.prems(1)
    by (simp add: poll_busy odma_read_def log_def reads_of_Cons[of "Suc k" "Suc m"])
qed

lemma poll_never:
  assumes "poll h st s = Some y"
  shows "st AND 2 \<noteq> 0 \<or> (\<exists>j\<ge>nreads s. odma_status h j AND 2 \<noteq> 0)"
  using assms
proof (induction rule: poll.raw_induct[rotated 1, consumes 1])
  case (1 poll' h st s y)
  show ?case
  proof (cases "st AND 2 = 0")
    case True
    with 1(2) have "poll' h (fst (odma_read h s)) (snd (odma_read h s)) = Some y" by simp
    from 1(1)[OF this] show ?thesis
      by (auto simp: odma_read_def log_def intro: Suc_leD)
  next
    case False then show ?thesis by simp
  qed
qed

lemma calls_append [simp]: "calls (xs @ ys) = calls xs @ calls ys"
  by (induction xs rule: calls.induct) simp_all

lemma poll_frame:
  assumes "poll h st s = Some s'"
  shows "\<exists>evs. s' = s\<lparr>trace := trace s @ evs, nreads := nreads s + length evs\<rparr>
               \<and> set evs \<subseteq> range (RegRead ODMA 0)"
  using assms
proof (induction rule: poll.raw_induct[rotated 1, consumes 1])
  case (1 poll' h st s y)
  show ?case
  proof (cases "st AND 2 = 0")
    case True
    with 1(2) have "poll' h (fst (odma_read h s)) (snd (odma_read h s)) = Some y" by simp
    from 1(1)[OF this] obtain evs where
      y: "y = (snd (odma_read h s))\<lparr>trace := trace (snd (odma_read h s)) @ evs,
                 nreads := nreads (snd (odma_read h s)) + length evs\<rparr>"
      and r: "set evs \<subseteq> range (RegRead ODMA 0)" by blast
    have "y = s\<lparr>trace := trace s @ (RegRead ODMA 0 (odma_status h (nreads s)) # evs),
               nreads := nreads s + length (RegRead ODMA 0 (odma_status h (nreads s)) # evs)\<rparr>"
      using y by (simp add: odma_read_def log_def)
    moreover have "set (RegRead ODMA 0 (odma_status h (nreads s)) # evs) \<subseteq> range (RegRead ODMA 0)"
      using r by simp
    ultimately show ?thesis by blast
  next
    case False
    with 1(2) have "y = s" by simp
    then have "y = s\<lparr>trace := trace s @ [], nreads := nreads s + length ([]::event list)\<rparr>" by simp
    then show ?thesis by (intro exI[of _ "[]"]) simp
  qed
qed

lemma calls_reads: "set evs \<subseteq> range (RegRead ODMA 0) \<Longrightarrow> calls evs = []"
  by (induction evs) auto

lemma wait_frame:
  assumes "wait_until_finished h s = Some (r, s')"
  shows "\<exists>evs. trace s' = trace s @ Enter ''wait_until_finished'' # evs \<and> calls evs = []
           \<and> io_shape_dict s' = io_shape_dict s \<and> batch_size s' = batch_size s
           \<and> platform s' = platform s \<and> obuf_packed s' = obuf_packed s
           \<and> ibuf_packed_device s' = ibuf_packed_device s
           \<and> obuf_packed_device s' = obuf_packed_device s"
proof (cases "platform s = ''zynq-iodma''")
  case True
  let ?s1 = "log (Enter ''wait_until_finished'') s"
  from assms True obtain s2 where
    p: "poll h (fst (odma_read h ?s1)) (snd (odma_read h ?s1)) = Some s2" and s': "s' = s2"
    by (auto simp: wait_until_finished_def Let_def split: option.splits)
  from poll_frame[OF p] obtain evs where
    e: "s2 = (snd (odma_read h ?s1))\<lparr>trace := trace (snd (odma_read h ?s1)) @ evs,
              nreads := nreads (snd (odma_read h ?s1)) + length evs\<rparr>"
    and r: "set evs \<subseteq> range (RegRead ODMA 0)" by blast
  have "calls (RegRead ODMA 0 (odma_status h (nreads s)) # evs) = []"
    using calls_reads[OF r] by simp
  moreover have "trace s' = trace s @ Enter ''wait_until_finished''
                    # (RegRead ODMA 0 (odma_status h (nreads s)) # evs)"
    using e s' by (simp add: odma_read_def)
  ultimately show ?thesis using e s' by (intro exI[of _ "RegRead ODMA 0 (odma_status h (nreads s)) # evs"])
      (simp add: odma_read_def)
next
  case False
  with assms show ?thesis
    by (auto simp: wait_until_finished_def Let_def split: option.splits if_splits)
qed

lemma launch_frame:
  assumes "launch h n s = (r, s')"
  shows "\<exists>evs. trace s' = trace s @ evs \<and> calls evs = []
           \<and> io_shape_dict s' = io_shape_dict s \<and> batch_size s' = batch_size s
           \<and> platform s' = platform s \<and> obuf_packed s' = obuf_packed s
           \<and> ibuf_packed_device s' = ibuf_packed_device s
           \<and> obuf_packed_device s' = obuf_packed_device s"
  using assms
  by (auto simp: launch_def Let_def odma_read_def split: if_splits option.splits)

lemma execute_on_buffers_blocking:
  "execute_on_buffers h False bs s =
     (case execute_on_buffers h True bs s of
        None \<Rightarrow> None
      | Some (Inl e, s1) \<Rightarrow> Some (Inl e, s1)
      | Some (Inr u, s1) \<Rightarrow> wait_until_finished h s1)"
  by (simp add: execute_on_buffers_def Let_def split: prod.splits sum.splits)

lemma execute_on_buffers_async:
  "\<exists>r s1 evs. execute_on_buffers h True bs s = Some (r, s1)
       \<and> trace s1 = trace s @ Enter ''execute_on_buffers'' # evs \<and> calls evs = []
       \<and> io_shape_dict s1 = io_shape_dict s \<and> batch_size s1 = batch_size s
       \<and> platform s1 = platform s \<and> obuf_packed s1 = obuf_packed s
       \<and> ibuf_packed_device s1 = ibuf_packed_device s
       \<and> obuf_packed_device s1 = obuf_packed_device s"
proof -
  let ?s0 = "log (Enter ''execute_on_buffers'') s"
  let ?n = "case bs of None \<Rightarrow> batch_size ?s0 | Some b \<Rightarrow> b"
  show ?thesis
  proof (cases "?n \<le> batch_size ?s0")
    case False
    then show ?thesis
      by (intro exI[of _ "Inl (AssertionError ''Specified batch_size is too large.'')"]
            exI[of _ ?s0] exI[of _ "[]"]) (simp add: execute_on_buffers_def Let_def)
  next
    case True
    obtain r s1 where l: "launch h ?n ?s0 = (r, s1)" by (cases "launch h ?n ?s0")
    from launch_frame[OF l] obtain evs where "trace s1 = trace ?s0 @ evs" "calls evs = []"
      "io_shape_dict s1 = io_shape_dict s" "batch_size s1 = batch_size s"
      "platform s1 = platform s" "obuf_packed s1 = obuf_packed s"
      "ibuf_packed_device s1 = ibuf_packed_device s"
      "obuf_packed_device s1 = obuf_packed_device s" by auto
    moreover have "execute_on_buffers h True bs s = Some (r, s1)"
      using True l by (cases r) (simp_all add: execute_on_buffers_def Let_def)
    ultimately show ?thesis by (intro exI[of _ r] exI[of _ s1] exI[of _ evs]) simp
  qed
qed

lemma launch_alveo_busy:
  "platform s = ''alveo'' \<Longrightarrow> odma_handle s \<noteq> None \<Longrightarrow>
   launch h n s = (Inl (AssertionError ''Output DMA is already running''), s)"
  by (simp add: launch_def)

lemma launch_alveo_ok:
  "platform s = ''alveo'' \<Longrightarrow> launch h n s = (Inr u, s') \<Longrightarrow>
   odma_handle s = None \<and> odma_handle s' = Some (nhandles s) \<and> platform s' = ''alveo''
   \<and> batch_size s' = batch_size s"
  by (auto simp: launch_def Let_def split: if_splits option.splits)

lemma ex_alveo_launch:
  "execute_on_buffers ex_hw True None (ex_driver ''alveo'') =
     Some (Inr (), (ex_driver ''alveo'')
       \<lparr>odma_handle := Some 0, nhandles := 1,
        trace := [Enter ''execute_on_buffers'', DmaStart IDMA 0 1, DmaStart ODMA 1 1]\<rparr>)"
  by (simp add: execute_on_buffers_def Let_def launch_def ex_driver_def log_def)

lemma from_bits_snoc: "from_bits (bs @ [b]) = 2 * from_bits bs + (if b then 1 else 0)"
  by (simp add: from_bits_def)

lemma from_bits_Nil: "from_bits [] = 0"
  by (simp add: from_bits_def)

lemma length_to_bits [simp]: "length (to_bits n v) = n"
  by (induction n arbitrary: v) simp_all

lemma to_bits_from_bits: "to_bits (length bs) (from_bits bs) = bs"
proof (induction bs rule: rev_induct)
  case Nil
  then show ?case by simp
next
  case (snoc b bs)
  have "(2 * from_bits bs + (if b then 1 else 0)) div 2 = from_bits bs" by simp
  moreover have "odd (2 * from_bits bs + (if b then 1 else 0)) = b" by simp
  ultimately show ?case using snoc by (simp add: from_bits_snoc)
qed

lemma from_bits_to_bits: "from_bits (to_bits n v) = v mod 2 ^ n"
proof (induction n arbitrary: v)
  case 0
  then show ?case by (simp add: from_bits_Nil)
next
  case (Suc n)
  have "v mod (2 * 2 ^ n) = 2 * (v div 2 mod 2 ^ n) + v mod 2"
    by (simp add: zmod_zmult2_eq)
  moreover have "v mod 2 = (if odd v then 1 else 0)" by (simp add: mod_2_eq_odd)
  ultimately show ?case using Suc by (simp add: from_bits_snoc)
qed

lemma decode_encode:
  assumes "0 < bitwidth dt" and "representable dt v"
  shows "decode dt (from_bits (to_bits (bitwidth dt) v)) = v"
proof -
  obtain k where w: "bitwidth dt = Suc k" using assms(1) by (cases "bitwidth dt") auto
  have fb: "from_bits (to_bits (bitwidth dt) v) = v mod 2 ^ Suc k"
    using from_bits_to_bits[of "bitwidth dt" v] by (simp only: w)
  have w1: "bitwidth dt - 1 = k" using w by simp
  show ?thesis
  proof (cases "is_signed dt")
    case False
    with assms(2) show ?thesis
      unfolding decode_def representable_def fb by (simp add: w)
  next
    case True
    with assms(2) w have r: "- (2 ^ k) \<le> v" "v < 2 ^ k" by (simp_all add: representable_def)
    show ?thesis
    proof (cases "v < 0")
      case True
      have "v mod 2 ^ Suc k = (v + 2 ^ Suc k) mod 2 ^ Suc k" by simp
      also have "\<dots> = v + 2 ^ Suc k" using r True by (intro mod_pos_pos_trivial) simp_all
      finally have m: "v mod 2 ^ Suc k = v + 2 ^ Suc k" .
      have "(2::int) ^ k \<le> v + 2 ^ Suc k" using r by simp
      with m \<open>is_signed dt\<close> show ?thesis
        unfolding decode_def fb w1 by (simp add: w)
    next
      case False
      then have m: "v mod 2 ^ Suc k = v" using r by (intro mod_pos_pos_trivial) simp_all
      with \<open>is_signed dt\<close> r False show ?thesis
        unfolding decode_def fb w1 by (simp add: w)
    qed
  qed
qed

lemma length_chunks [simp]: "length (chunks k n xs) = k"
  by (induction k arbitrary: xs) simp_all

lemma chunks_concat:
  "length xss = k \<Longrightarrow> (\<forall>xs\<in>set xss. length xs = n) \<Longrightarrow> chunks k n (concat xss @ r) = xss"
proof (induction k arbitrary: xss)
  case 0
  then show ?case by simp
next
  case (Suc k)
  then obtain y ys where "xss = y # ys" by (cases xss) auto
  with Suc show ?case by simp
qed

lemma concat_chunks: "length xs = k * n \<Longrightarrow> concat (chunks k n xs) = xs"
proof (induction k arbitrary: xs)
  case 0
  then show ?case by simp
next
  case (Suc k)
  then have "length (drop n xs) = k * n" by simp
  with Suc.IH have "concat (chunks k n (drop n xs)) = drop n xs" by blast
  then show ?case by simp
qed

lemma chunks_lengths: "k * n \<le> length xs \<Longrightarrow> c \<in> set (chunks k n xs) \<Longrightarrow> length c = n"
proof (induction k arbitrary: xs)
  case 0
  then show ?case by simp
next
  case (Suc k)
  then have d: "k * n \<le> length (drop n xs)" and n: "n \<le> length xs" by simp_all
  from Suc.prems(2) have "c = take n xs \<or> c \<in> set (chunks k n (drop n xs))" by simp
  then show ?case
  proof
    assume "c = take n xs"
    with n show ?thesis by simp
  next
    assume "c \<in> set (chunks k n (drop n xs))"
    with Suc.IH[OF d] show ?thesis .
  qed
qed

lemma chunks_elems: "c \<in> set (chunks k n xs) \<Longrightarrow> set c \<subseteq> set xs"
proof (induction k arbitrary: xs)
  case 0
  then show ?case by simp
next
  case (Suc k)
  then show ?case by (auto dest: in_set_takeD in_set_dropD)
qed

lemma length_concat_to_bits: "length (concat (map (to_bits w) ys)) = w * length ys"
  by (induction ys) simp_all

lemma length_pack_word [simp]: "length (pack_word dt re ri xs) = word_bytes dt (length xs)"
  by (simp add: pack_word_def Let_def)

lemma unpack_pack_word:
  assumes "0 < bitwidth dt" and "\<forall>v\<in>set xs. representable dt v"
  shows "unpack_word dt re ri (length xs) (pack_word dt re ri xs) = xs"
proof -
  let ?w = "bitwidth dt"
  let ?ys = "if ri then rev xs else xs"
  let ?bits = "concat (map (to_bits ?w) ?ys)"
  let ?n = "word_bytes dt (length xs)"
  let ?padded = "?bits @ replicate (8 * ?n - length ?bits) False"
  let ?bytes = "map from_bits (chunks ?n 8 ?padded)"
  have lb: "length ?bits = ?w * length xs" by (simp add: length_concat_to_bits)
  have "?w * length xs \<le> 8 * ?n" by (simp add: word_bytes_def)
  with lb have lp: "length ?padded = ?n * 8" by simp
  have "to_bits 8 (from_bits c) = c" if "c \<in> set (chunks ?n 8 ?padded)" for c
  proof -
    from chunks_lengths[OF _ that] lp have "length c = 8" by simp
    with to_bits_from_bits[of c] show ?thesis by simp
  qed
  then have "map (to_bits 8) ?bytes = chunks ?n 8 ?padded"
    by (simp add: map_idI)
  then have "concat (map (to_bits 8) ?bytes) = ?padded"
    using concat_chunks[OF lp] by simp
  then have tk: "take (?w * length xs) (concat (map (to_bits 8) ?bytes)) = ?bits"
    using lb by simp
  have "chunks (length xs) ?w (?bits @ []) = map (to_bits ?w) ?ys"
    by (rule chunks_concat) auto
  then have ch: "chunks (length xs) ?w ?bits = map (to_bits ?w) ?ys" by simp
  have "map (\<lambda>c. decode dt (from_bits c)) (map (to_bits ?w) ?ys) = ?ys"
    using assms by (auto simp: decode_encode intro!: map_idI)
  with tk ch have "map (\<lambda>c. decode dt (from_bits c))
           (chunks (length xs) ?w (take (?w * length xs) (concat (map (to_bits 8) ?bytes)))) = ?ys"
    by simp
  then show ?thesis
    by (cases ri; cases re) (simp_all add: unpack_word_def pack_word_def Let_def)
qed

lemma prod_list_butlast_last: "shp \<noteq> [] \<Longrightarrow> prod_list (butlast shp) * last shp = prod_list shp"
  by (induction shp) (auto simp: mult.assoc)

lemma spec_roundtrip:
  assumes "0 < bitwidth dt" and "shape x \<noteq> []" and "well_formed x"
    and "\<forall>v\<in>set (elems x). representable dt v"
  shows "\<exists>p. spec_pack x dt re ri fm = Inr p \<and> spec_unpack p dt (shape x) re ri fm' = Inr x"
proof -
  let ?k = "prod_list (butlast (shape x))"
  let ?g = "last (shape x)"
  let ?groups = "chunks ?k ?g (elems x)"
  let ?p = "\<lparr>shape = butlast (shape x) @ [word_bytes dt ?g],
             elems = concat (map (pack_word dt re ri) ?groups)\<rparr>"
  have len: "length (elems x) = ?k * ?g"
    using assms(2,3) by (simp add: well_formed_def prod_list_butlast_last)
  have pk: "spec_pack x dt re ri fm = Inr ?p"
    using assms(2,4) by (simp add: spec_pack_def)
  have gl: "length c = ?g" if "c \<in> set ?groups" for c
    using chunks_lengths[OF _ that] len by simp
  have "chunks ?k (word_bytes dt ?g) (concat (map (pack_word dt re ri) ?groups) @ [])
          = map (pack_word dt re ri) ?groups"
    by (rule chunks_concat) (auto simp: gl)
  then have ch: "chunks ?k (word_bytes dt ?g) (concat (map (pack_word dt re ri) ?groups))
          = map (pack_word dt re ri) ?groups" by simp
  have "unpack_word dt re ri ?g (pack_word dt re ri c) = c" if "c \<in> set ?groups" for c
  proof -
    have "\<forall>v\<in>set c. representable dt v" using chunks_elems[OF that] assms(4) by blast
    from unpack_pack_word[OF assms(1) this, of re ri] gl[OF that] show ?thesis by simp
  qed
  then have "map (unpack_word dt re ri ?g) (map (pack_word dt re ri) ?groups) = ?groups"
    by (simp add: map_idI)
  with ch have "concat (map (unpack_word dt re ri ?g)
                  (chunks ?k (word_bytes dt ?g) (elems ?p))) = elems x"
    using concat_chunks[OF len] by simp
  then have "spec_unpack ?p dt (shape x) re ri fm' = Inr x"
    using assms(2) by (simp add: spec_unpack_def)
  with pk show ?thesis by blast
qed

lemma log_props [simp]:
  "idt (log e s) = idt s" "odt (log e s) = odt s"
  "ishape_normal (log e s) = ishape_normal s" "oshape_normal (log e s) = oshape_normal s"
  "ishape_folded (log e s) = ishape_folded s" "oshape_folded (log e s) = oshape_folded s"
  "ishape_packed (log e s) = ishape_packed s" "oshape_packed (log e s) = oshape_packed s"
  by (simp_all add: idt_def odt_def ishape_normal_def oshape_normal_def ishape_folded_def
      oshape_folded_def ishape_packed_def oshape_packed_def)












lemma engine_ready_after_upload [simp]:
  "engine_ready h (after_upload s ib xs) = engine_ready h s"
  by (simp add: engine_ready_def after_upload_def)





lemma replicate_zeros:
  "replicate 4 (0::int) = [0, 0, 0, 0]"
  "replicate 8 (0::int) = [0, 0, 0, 0, 0, 0, 0, 0]"
  by code_simp+

lemma setter_result:
  assumes "key_ishape_packed (io_shape_dict s) = a # as"
    and "key_oshape_packed (io_shape_dict s) = b # bs"
  shows "batch_size_setter h v s =
     (Inr (),
      s\<lparr>batch_size := v,
        ibuf_packed_device :=
          Some \<lparr>buf_id = nalloc s, buf_shape = v # as, cacheable = (platform s \<noteq> ''alveo''),
                device_address = phys_addr h (nalloc s),
                buf_data = replicate (prod_list (v # as)) 0\<rparr>,
        obuf_packed_device :=
          Some \<lparr>buf_id = Suc (nalloc s), buf_shape = v # bs,
                cacheable = (platform s \<noteq> ''alveo''),
                device_address = phys_addr h (Suc (nalloc s)),
                buf_data = replicate (prod_list (v # bs)) 0\<rparr>,
        obuf_packed := Some \<lparr>shape = v # bs, elems = replicate (prod_list (v # bs)) 0\<rparr>,
        nalloc := Suc (Suc (nalloc s)),
        trace := trace s @ released s
                 @ [Allocate (nalloc s) (v # as) (platform s \<noteq> ''alveo''),
                    Allocate (Suc (nalloc s)) (v # bs) (platform s \<noteq> ''alveo'')]\<rparr>)"
  using assms
  by (cases "ibuf_packed_device s"; cases "obuf_packed_device s")
     (simp_all add: batch_size_setter_def Let_def drop_ibuf_def drop_obuf_def ishape_packed_def
        oshape_packed_def with_batch_def allocate_def log_def released_def)

lemma init_result:
  assumes "key_ishape_packed d = a # as" and "key_oshape_packed d = b # bs"
  shows "init h pf d n =
    (if pf = ''alveo'' \<or> pf = ''zynq-iodma''
     then load_runtime_weights h True
       \<lparr>io_shape_dict = d,
        ibuf_packed_device =
          Some \<lparr>buf_id = 0, buf_shape = n # as, cacheable = (pf \<noteq> ''alveo''),
                device_address = phys_addr h 0, buf_data = replicate (prod_list (n # as)) 0\<rparr>,
        obuf_packed_device =
          Some \<lparr>buf_id = 1, buf_shape = n # bs, cacheable = (pf \<noteq> ''alveo''),
                device_address = phys_addr h 1, buf_data = replicate (prod_list (n # bs)) 0\<rparr>,
        obuf_packed = Some \<lparr>shape = n # bs, elems = replicate (prod_list (n # bs)) 0\<rparr>,
        platform = pf, batch_size = n, odma_handle = None,
        trace = [Enter ''__init__'', Allocate 0 (n # as) (pf \<noteq> ''alveo''),
                 Allocate 1 (n # bs) (pf \<noteq> ''alveo'')],
        nreads = 0, nalloc = 2, nhandles = 0\<rparr>
     else Some (Inl (ValueError ''Supported platforms are zynq-iodma alveo''),
       \<lparr>io_shape_dict = d,
        ibuf_packed_device =
          Some \<lparr>buf_id = 0, buf_shape = n # as, cacheable = True,
                device_address = phys_addr h 0, buf_data = replicate (prod_list (n # as)) 0\<rparr>,
        obuf_packed_device =
          Some \<lparr>buf_id = 1, buf_shape = n # bs, cacheable = True,
                device_address = phys_addr h 1, buf_data = replicate (prod_list (n # bs)) 0\<rparr>,
        obuf_packed = Some \<lparr>shape = n # bs, elems = replicate (prod_list (n # bs)) 0\<rparr>,
        platform = pf, batch_size = n, odma_handle = None,
        trace = [Enter ''__init__'', Allocate 0 (n # as) True, Allocate 1 (n # bs) True],
        nreads = 0, nalloc = 2, nhandles = 0\<rparr>))"
  using assms
  by (simp add: init_def Let_def setter_result released_def numeral_2_eq_2)

section \<open>Waiting on the register-polled engine\<close>

text \<open>
  Claim C6. On the platform \<^verbatim>\<open>zynq-iodma\<close>, \<^verbatim>\<open>wait_until_finished\<close> reads the
  output DMA status register again for as long as the done bit (mask \<open>0x2\<close>) is clear. For
  every sequence of register values: if \<open>m\<close> is the first read from now on that shows the
  done bit, the method returns right after read \<open>m\<close>, having made exactly the reads up
  to \<open>m\<close>; and if no read ever shows the done bit, the method never returns.
\<close>

theorem wait_polls_until_done:
  assumes "platform s = ''zynq-iodma''"
  shows "(\<forall>m. nreads s \<le> m \<and> odma_status h m AND 2 \<noteq> 0
              \<and> (\<forall>j. nreads s \<le> j \<and> j < m \<longrightarrow> odma_status h j AND 2 = 0)
            \<longrightarrow> wait_until_finished h s =
                  Some (Inr (), s\<lparr>trace := trace s @ Enter ''wait_until_finished''
                                              # reads_of h (nreads s) (Suc m),
                                   nreads := Suc m\<rparr>))
       \<and> ((\<forall>j\<ge>nreads s. odma_status h j AND 2 = 0) \<longrightarrow> wait_until_finished h s = None)"
proof (intro conjI allI impI)
  fix m
  assume a: "nreads s \<le> m \<and> odma_status h m AND 2 \<noteq> 0
              \<and> (\<forall>j. nreads s \<le> j \<and> j < m \<longrightarrow> odma_status h j AND 2 = 0)"
  let ?s1 = "log (Enter ''wait_until_finished'') s"
  let ?s2 = "snd (odma_read h ?s1)"
  have n: "nreads ?s2 = Suc (nreads s)" by (simp add: odma_read_def log_def)
  have f: "fst (odma_read h ?s1) = odma_status h (nreads s)" by (simp add: odma_read_def log_def)
  have "poll h (odma_status h (nreads s)) ?s2 =
          Some (?s2\<lparr>trace := trace ?s2 @ reads_of h (Suc (nreads s)) (Suc m), nreads := Suc m\<rparr>)"
    using poll_returns[OF n, of m h] a by blast
  moreover have "nreads s < Suc m" using a by simp
  ultimately show "wait_until_finished h s =
                  Some (Inr (), s\<lparr>trace := trace s @ Enter ''wait_until_finished''
                                              # reads_of h (nreads s) (Suc m),
                                   nreads := Suc m\<rparr>)"
    using assms f
    by (simp add: wait_until_finished_def Let_def reads_of_Cons[of "nreads s" "Suc m"]
          odma_read_def log_def)
next
  assume a: "\<forall>j\<ge>nreads s. odma_status h j AND 2 = 0"
  let ?s1 = "log (Enter ''wait_until_finished'') s"
  have "poll h (fst (odma_read h ?s1)) (snd (odma_read h ?s1)) = None"
  proof (cases "poll h (fst (odma_read h ?s1)) (snd (odma_read h ?s1))")
    case (Some y)
    from poll_never[OF this] a show ?thesis
      by (auto simp: odma_read_def log_def)
  qed simp
  then show "wait_until_finished h s = None"
    using assms by (simp add: wait_until_finished_def Let_def)
qed

theorem wait_polls_until_done_witness:
  "wait_until_finished ex_hw ((ex_driver ''zynq-iodma'')\<lparr>nreads := 1\<rparr>) =
     Some (Inr (), (ex_driver ''zynq-iodma'')
        \<lparr>trace := [Enter ''wait_until_finished'', RegRead ODMA 0 0, RegRead ODMA 0 0, RegRead ODMA 0 2],
         nreads := 4\<rparr>)
   \<and> wait_until_finished ex_stuck (ex_driver ''zynq-iodma'') = None"
proof -
  have p: "platform ((ex_driver ''zynq-iodma'')\<lparr>nreads := 1\<rparr>) = ''zynq-iodma''"
          "platform (ex_driver ''zynq-iodma'') = ''zynq-iodma''"
    by (simp_all add: ex_driver_def)
  have r: "reads_of ex_hw 1 4 = [RegRead ODMA 0 0, RegRead ODMA 0 0, RegRead ODMA 0 2]"
    by (simp add: reads_of_def ex_hw_def upt_conv_Cons)
  have b: "\<forall>j. 1 \<le> j \<and> j < 3 \<longrightarrow> odma_status ex_hw j AND 2 = 0"
    by (simp add: ex_hw_def)
  have c: "odma_status ex_hw 3 AND 2 \<noteq> 0" by (simp add: ex_hw_def)
  from wait_polls_until_done[OF p(1), of ex_hw, THEN conjunct1, rule_format, of 3] b c r
  have "wait_until_finished ex_hw ((ex_driver ''zynq-iodma'')\<lparr>nreads := 1\<rparr>) =
     Some (Inr (), (ex_driver ''zynq-iodma'')
        \<lparr>trace := [Enter ''wait_until_finished'', RegRead ODMA 0 0, RegRead ODMA 0 0, RegRead ODMA 0 2],
         nreads := 4\<rparr>)"
    by (simp add: ex_driver_def)
  moreover from wait_polls_until_done[OF p(2), of ex_stuck]
  have "wait_until_finished ex_stuck (ex_driver ''zynq-iodma'') = None"
    by (simp add: ex_stuck_def)
  ultimately show ?thesis by simp
qed

section \<open>Launching\<close>

text \<open>
  Claim C8. A call of \<^verbatim>\<open>execute_on_buffers\<close> with an explicit batch size larger than
  the configured batch size fails with the assertion
  \<^verbatim>\<open>Specified batch_size is too large.\<close> before anything else is done, and a call
  without a batch size behaves as the call with the configured batch size.
\<close>

theorem batch_size_bound:
  "(\<forall>b. batch_size s < b \<longrightarrow>
        execute_on_buffers h asynch (Some b) s =
          Some (Inl (AssertionError ''Specified batch_size is too large.''),
                log (Enter ''execute_on_buffers'') s))
   \<and> execute_on_buffers h asynch None s = execute_on_buffers h asynch (Some (batch_size s)) s"
  by (simp add: execute_on_buffers_def Let_def)

theorem batch_size_bound_witness:
  "execute_on_buffers ex_hw False (Some 2) (ex_driver ''alveo'') =
     Some (Inl (AssertionError ''Specified batch_size is too large.''),
           log (Enter ''execute_on_buffers'') (ex_driver ''alveo''))"
  using batch_size_bound[of "ex_driver ''alveo''" ex_hw False, THEN conjunct1, rule_format, of 2]
  by (simp add: ex_driver_def)

text \<open>
  Claim C3. The blocking call (\<^verbatim>\<open>asynch\<close> is \<^verbatim>\<open>False\<close>) is the non-blocking
  call followed, when the launch succeeded, by \<^verbatim>\<open>wait_until_finished\<close>; the
  non-blocking call always returns and enters no method but \<^verbatim>\<open>execute_on_buffers\<close>
  itself, so the wait is left to the caller; a blocking call that returns normally has
  entered \<^verbatim>\<open>wait_until_finished\<close> after the launch.
\<close>

theorem blocking_waits_before_returning:
  "execute_on_buffers h False bs s =
     (case execute_on_buffers h True bs s of
        None \<Rightarrow> None
      | Some (Inl e, s1) \<Rightarrow> Some (Inl e, s1)
      | Some (Inr u, s1) \<Rightarrow> wait_until_finished h s1)
   \<and> (\<exists>r s1 evs. execute_on_buffers h True bs s = Some (r, s1)
          \<and> trace s1 = trace s @ evs \<and> calls evs = [''execute_on_buffers''])
   \<and> (\<forall>r s'. execute_on_buffers h False bs s = Some (Inr r, s') \<longrightarrow>
          (\<exists>evs. trace s' = trace s @ evs
              \<and> calls evs = [''execute_on_buffers'', ''wait_until_finished'']))"
proof (intro conjI allI impI)
  show "execute_on_buffers h False bs s =
     (case execute_on_buffers h True bs s of
        None \<Rightarrow> None
      | Some (Inl e, s1) \<Rightarrow> Some (Inl e, s1)
      | Some (Inr u, s1) \<Rightarrow> wait_until_finished h s1)"
    by (rule execute_on_buffers_blocking)
next
  from execute_on_buffers_async[of h bs s] obtain r s1 evs where
    "execute_on_buffers h True bs s = Some (r, s1)"
    "trace s1 = trace s @ Enter ''execute_on_buffers'' # evs" "calls evs = []" by blast
  then show "\<exists>r s1 evs. execute_on_buffers h True bs s = Some (r, s1)
          \<and> trace s1 = trace s @ evs \<and> calls evs = [''execute_on_buffers'']"
    by (intro exI[of _ r] exI[of _ s1] exI[of _ "Enter ''execute_on_buffers'' # evs"]) simp
next
  fix r s'
  assume a: "execute_on_buffers h False bs s = Some (Inr r, s')"
  from execute_on_buffers_async[of h bs s] obtain r1 s1 evs where
    b: "execute_on_buffers h True bs s = Some (r1, s1)"
    "trace s1 = trace s @ Enter ''execute_on_buffers'' # evs" "calls evs = []" by blast
  with a have w: "wait_until_finished h s1 = Some (Inr r, s')"
    by (cases r1) (simp_all add: execute_on_buffers_blocking)
  from wait_frame[OF w] obtain evs' where
    "trace s' = trace s1 @ Enter ''wait_until_finished'' # evs'" "calls evs' = []" by blast
  with b show "\<exists>evs. trace s' = trace s @ evs
              \<and> calls evs = [''execute_on_buffers'', ''wait_until_finished'']"
    by (intro exI[of _ "Enter ''execute_on_buffers'' # evs @ Enter ''wait_until_finished'' # evs'"])
       simp
qed

theorem blocking_waits_before_returning_witness:
  "execute_on_buffers ex_hw False None (ex_driver ''zynq-iodma'') =
     Some (Inr (), (ex_driver ''zynq-iodma'')
       \<lparr>trace := [Enter ''execute_on_buffers'', RegRead ODMA 0 4,
                  RegWrite IDMA 0x10 4096, RegWrite IDMA 0x1C 1,
                  RegWrite ODMA 0x10 4097, RegWrite ODMA 0x1C 1,
                  RegWrite IDMA 0x00 1, RegWrite ODMA 0x00 1,
                  Enter ''wait_until_finished'', RegRead ODMA 0 0, RegRead ODMA 0 0,
                  RegRead ODMA 0 2],
        nreads := 4\<rparr>)"
proof -
  have a: "execute_on_buffers ex_hw True None (ex_driver ''zynq-iodma'') =
     Some (Inr (), (ex_driver ''zynq-iodma'')
       \<lparr>trace := [Enter ''execute_on_buffers'', RegRead ODMA 0 4,
                  RegWrite IDMA 0x10 4096, RegWrite IDMA 0x1C 1,
                  RegWrite ODMA 0x10 4097, RegWrite ODMA 0x1C 1,
                  RegWrite IDMA 0x00 1, RegWrite ODMA 0x00 1],
        nreads := 1\<rparr>)"
    by (simp add: execute_on_buffers_def Let_def launch_def odma_read_def ex_driver_def
          ex_hw_def log_def)
  have b: "wait_until_finished ex_hw ((ex_driver ''zynq-iodma'')
       \<lparr>trace := [Enter ''execute_on_buffers'', RegRead ODMA 0 4,
                  RegWrite IDMA 0x10 4096, RegWrite IDMA 0x1C 1,
                  RegWrite ODMA 0x10 4097, RegWrite ODMA 0x1C 1,
                  RegWrite IDMA 0x00 1, RegWrite ODMA 0x00 1],
        nreads := 1\<rparr>) =
     Some (Inr (), (ex_driver ''zynq-iodma'')
       \<lparr>trace := [Enter ''execute_on_buffers'', RegRead ODMA 0 4,
                  RegWrite IDMA 0x10 4096, RegWrite IDMA 0x1C 1,
                  RegWrite ODMA 0x10 4097, RegWrite ODMA 0x1C 1,
                  RegWrite IDMA 0x00 1, RegWrite ODMA 0x00 1,
                  Enter ''wait_until_finished'', RegRead ODMA 0 0, RegRead ODMA 0 0,
                  RegRead ODMA 0 2],
        nreads := 4\<rparr>)"
    apply (simp add: wait_until_finished_def Let_def ex_driver_def odma_read_def log_def ex_hw_def)
    apply (subst poll.simps, simp add: odma_read_def log_def)
    apply (subst poll.simps, simp add: odma_read_def log_def)
    apply (subst poll.simps, simp add: odma_read_def log_def)
    done
  from blocking_waits_before_returning[of ex_hw None "ex_driver ''zynq-iodma''", THEN conjunct1]
    a b
  show ?thesis by simp
qed

text \<open>
  Claim C7. On the platform \<^verbatim>\<open>zynq-iodma\<close> a launch first reads the status register
  of the output DMA and fails with \<^verbatim>\<open>Output DMA is not idle\<close>, writing nothing, when
  the idle bit (mask \<open>0x4\<close>) is clear; otherwise it writes address and count of the input
  channel, address and count of the output channel, the start bit of the input channel and
  the start bit of the output channel, in this order. A blocking call has the same events
  first, followed by status reads only.
\<close>

theorem zynq_launch_order:
  assumes "platform s = ''zynq-iodma''"
    and "ibuf_packed_device s = Some ib" and "obuf_packed_device s = Some ob"
    and "fits bs s"
  shows "execute_on_buffers h True bs s =
     Some (if odma_status h (nreads s) AND 4 = 0
           then (Inl (AssertionError ''Output DMA is not idle''),
                 s\<lparr>trace := trace s @ [Enter ''execute_on_buffers'',
                                         RegRead ODMA 0x00 (odma_status h (nreads s))],
                   nreads := Suc (nreads s)\<rparr>)
           else (Inr (),
                 s\<lparr>trace := trace s @
                     [Enter ''execute_on_buffers'',
                      RegRead ODMA 0x00 (odma_status h (nreads s)),
                      RegWrite IDMA 0x10 (device_address ib),
                      RegWrite IDMA 0x1C (case bs of None \<Rightarrow> batch_size s | Some b \<Rightarrow> b),
                      RegWrite ODMA 0x10 (device_address ob),
                      RegWrite ODMA 0x1C (case bs of None \<Rightarrow> batch_size s | Some b \<Rightarrow> b),
                      RegWrite IDMA 0x00 1,
                      RegWrite ODMA 0x00 1],
                   nreads := Suc (nreads s)\<rparr>))
   \<and> (\<forall>r s'. execute_on_buffers h False bs s = Some (r, s') \<longrightarrow>
         (if odma_status h (nreads s) AND 4 = 0
          then r = Inl (AssertionError ''Output DMA is not idle'')
               \<and> trace s' = trace s @ [Enter ''execute_on_buffers'',
                                         RegRead ODMA 0x00 (odma_status h (nreads s))]
          else \<exists>evs. set evs \<subseteq> range (RegRead ODMA 0x00) \<and> trace s' = trace s @
                     [Enter ''execute_on_buffers'',
                      RegRead ODMA 0x00 (odma_status h (nreads s)),
                      RegWrite IDMA 0x10 (device_address ib),
                      RegWrite IDMA 0x1C (case bs of None \<Rightarrow> batch_size s | Some b \<Rightarrow> b),
                      RegWrite ODMA 0x10 (device_address ob),
                      RegWrite ODMA 0x1C (case bs of None \<Rightarrow> batch_size s | Some b \<Rightarrow> b),
                      RegWrite IDMA 0x00 1,
                      RegWrite ODMA 0x00 1,
                      Enter ''wait_until_finished''] @ evs))"
proof -
  let ?n = "case bs of None \<Rightarrow> batch_size s | Some b \<Rightarrow> b"
  have n: "?n \<le> batch_size s" using assms(4) by (simp add: fits_def split: option.splits)
  have a: "execute_on_buffers h True bs s =
     Some (if odma_status h (nreads s) AND 4 = 0
           then (Inl (AssertionError ''Output DMA is not idle''),
                 s\<lparr>trace := trace s @ [Enter ''execute_on_buffers'',
                                         RegRead ODMA 0x00 (odma_status h (nreads s))],
                   nreads := Suc (nreads s)\<rparr>)
           else (Inr (),
                 s\<lparr>trace := trace s @
                     [Enter ''execute_on_buffers'',
                      RegRead ODMA 0x00 (odma_status h (nreads s)),
                      RegWrite IDMA 0x10 (device_address ib),
                      RegWrite IDMA 0x1C ?n,
                      RegWrite ODMA 0x10 (device_address ob),
                      RegWrite ODMA 0x1C ?n,
                      RegWrite IDMA 0x00 1,
                      RegWrite ODMA 0x00 1],
                   nreads := Suc (nreads s)\<rparr>))"
    using assms(1-3) n
    by (cases bs) (simp_all add: execute_on_buffers_def Let_def launch_def odma_read_def log_def)
  have b: "(if odma_status h (nreads s) AND 4 = 0
          then r = Inl (AssertionError ''Output DMA is not idle'')
               \<and> trace s' = trace s @ [Enter ''execute_on_buffers'',
                                         RegRead ODMA 0x00 (odma_status h (nreads s))]
          else \<exists>evs. set evs \<subseteq> range (RegRead ODMA 0x00) \<and> trace s' = trace s @
                     [Enter ''execute_on_buffers'',
                      RegRead ODMA 0x00 (odma_status h (nreads s)),
                      RegWrite IDMA 0x10 (device_address ib),
                      RegWrite IDMA 0x1C ?n,
                      RegWrite ODMA 0x10 (device_address ob),
                      RegWrite ODMA 0x1C ?n,
                      RegWrite IDMA 0x00 1,
                      RegWrite ODMA 0x00 1,
                      Enter ''wait_until_finished''] @ evs)"
    if c: "execute_on_buffers h False bs s = Some (r, s')" for r s'
  proof (cases "odma_status h (nreads s) AND 4 = 0")
    case True
    with a c show ?thesis by (auto simp: execute_on_buffers_blocking)
  next
    case False
    let ?s1 = "s\<lparr>trace := trace s @
                     [Enter ''execute_on_buffers'',
                      RegRead ODMA 0x00 (odma_status h (nreads s)),
                      RegWrite IDMA 0x10 (device_address ib),
                      RegWrite IDMA 0x1C ?n,
                      RegWrite ODMA 0x10 (device_address ob),
                      RegWrite ODMA 0x1C ?n,
                      RegWrite IDMA 0x00 1,
                      RegWrite ODMA 0x00 1],
                   nreads := Suc (nreads s)\<rparr>"
    from False a c have w: "wait_until_finished h ?s1 = Some (r, s')"
      by (simp add: execute_on_buffers_blocking)
    let ?s2 = "log (Enter ''wait_until_finished'') ?s1"
    from w assms(1) obtain p: "poll h (fst (odma_read h ?s2)) (snd (odma_read h ?s2)) = Some s'"
      by (auto simp: wait_until_finished_def Let_def split: option.splits)
    from poll_frame[OF p] obtain evs where
      e: "s' = (snd (odma_read h ?s2))\<lparr>trace := trace (snd (odma_read h ?s2)) @ evs,
              nreads := nreads (snd (odma_read h ?s2)) + length evs\<rparr>"
      and r: "set evs \<subseteq> range (RegRead ODMA 0)" by blast
    have "set (RegRead ODMA 0 (odma_status h (Suc (nreads s))) # evs) \<subseteq> range (RegRead ODMA 0)"
      using r by simp
    moreover have "trace s' = trace s @
                     [Enter ''execute_on_buffers'',
                      RegRead ODMA 0x00 (odma_status h (nreads s)),
                      RegWrite IDMA 0x10 (device_address ib),
                      RegWrite IDMA 0x1C ?n,
                      RegWrite ODMA 0x10 (device_address ob),
                      RegWrite ODMA 0x1C ?n,
                      RegWrite IDMA 0x00 1,
                      RegWrite ODMA 0x00 1,
                      Enter ''wait_until_finished'']
                    @ (RegRead ODMA 0 (odma_status h (Suc (nreads s))) # evs)"
      using e by (simp add: odma_read_def)
    ultimately have "\<exists>evs. set evs \<subseteq> range (RegRead ODMA 0x00) \<and> trace s' = trace s @
                     [Enter ''execute_on_buffers'',
                      RegRead ODMA 0x00 (odma_status h (nreads s)),
                      RegWrite IDMA 0x10 (device_address ib),
                      RegWrite IDMA 0x1C ?n,
                      RegWrite ODMA 0x10 (device_address ob),
                      RegWrite ODMA 0x1C ?n,
                      RegWrite IDMA 0x00 1,
                      RegWrite ODMA 0x00 1,
                      Enter ''wait_until_finished''] @ evs"
      by blast
    then show ?thesis using False by simp
  qed
  from a b show ?thesis by blast
qed

theorem zynq_launch_order_witness:
  "execute_on_buffers ex_hw True None (ex_driver ''zynq-iodma'') =
     Some (Inr (), (ex_driver ''zynq-iodma'')
       \<lparr>trace := [Enter ''execute_on_buffers'', RegRead ODMA 0 4,
                  RegWrite IDMA 0x10 4096, RegWrite IDMA 0x1C 1,
                  RegWrite ODMA 0x10 4097, RegWrite ODMA 0x1C 1,
                  RegWrite IDMA 0x00 1, RegWrite ODMA 0x00 1],
        nreads := 1\<rparr>)
   \<and> execute_on_buffers ex_stuck True None (ex_driver ''zynq-iodma'') =
     Some (Inl (AssertionError ''Output DMA is not idle''), (ex_driver ''zynq-iodma'')
       \<lparr>trace := [Enter ''execute_on_buffers'', RegRead ODMA 0 0], nreads := 1\<rparr>)"
proof -
  have p: "platform (ex_driver ''zynq-iodma'') = ''zynq-iodma''"
    and f: "fits None (ex_driver ''zynq-iodma'')"
    by (simp_all add: ex_driver_def fits_def)
  have i: "ibuf_packed_device (ex_driver ''zynq-iodma'') =
             Some \<lparr>buf_id = 0, buf_shape = [1, 2, 2], cacheable = True,
                   device_address = 4096, buf_data = [0, 0, 0, 0]\<rparr>"
    and ob: "obuf_packed_device (ex_driver ''zynq-iodma'') =
             Some \<lparr>buf_id = 1, buf_shape = [1, 2, 2], cacheable = True,
                   device_address = 4097, buf_data = [0, 0, 0, 0]\<rparr>"
    by (simp_all add: ex_driver_def)
  from zynq_launch_order[OF p i ob f, of ex_hw, THEN conjunct1]
       zynq_launch_order[OF p i ob f, of ex_stuck, THEN conjunct1]
  show ?thesis by (simp add: ex_hw_def ex_stuck_def ex_driver_def)
qed

text \<open>
  Claim C5. On the platform \<^verbatim>\<open>alveo\<close>, after a non-blocking launch the handle of
  the output transfer is held; every further launch before the wait fails with the
  assertion \<^verbatim>\<open>Output DMA is already running\<close> and starts nothing;
  \<^verbatim>\<open>wait_until_finished\<close> waits on the held handle and, once the backend has signalled
  completion, discards it.
\<close>

theorem alveo_single_handle:
  assumes "platform s = ''alveo''"
    and "execute_on_buffers h True bs s = Some (Inr (), s1)"
  shows "odma_handle s1 = Some (nhandles s)
       \<and> (\<forall>a bs'. fits bs' s1 \<longrightarrow>
             execute_on_buffers h a bs' s1 =
               Some (Inl (AssertionError ''Output DMA is already running''),
                     log (Enter ''execute_on_buffers'') s1))
       \<and> (handle_signals h (nhandles s) \<longrightarrow>
             (\<exists>s2. wait_until_finished h s1 = Some (Inr (), s2) \<and> odma_handle s2 = None
                   \<and> trace s2 = trace s1 @ [Enter ''wait_until_finished'', HandleWait (nhandles s)]))
       \<and> (\<not> handle_signals h (nhandles s) \<longrightarrow> wait_until_finished h s1 = None)"
proof -
  let ?s0 = "log (Enter ''execute_on_buffers'') s"
  from assms(2) obtain n where l: "launch h n ?s0 = (Inr (), s1)"
    by (auto simp: execute_on_buffers_def Let_def split: if_splits prod.splits sum.splits)
  from launch_alveo_ok[OF _ l] assms(1)
  have h: "odma_handle s1 = Some (nhandles s)" and p: "platform s1 = ''alveo''" by simp_all
  have "execute_on_buffers h a bs' s1 =
               Some (Inl (AssertionError ''Output DMA is already running''),
                     log (Enter ''execute_on_buffers'') s1)" if "fits bs' s1" for a bs'
    using that h p
    by (cases bs') (simp_all add: execute_on_buffers_def Let_def fits_def launch_alveo_busy)
  moreover have "handle_signals h (nhandles s) \<Longrightarrow>
       (\<exists>s2. wait_until_finished h s1 = Some (Inr (), s2) \<and> odma_handle s2 = None
            \<and> trace s2 = trace s1 @ [Enter ''wait_until_finished'', HandleWait (nhandles s)])"
    using h p by (simp add: wait_until_finished_def Let_def)
  moreover have "\<not> handle_signals h (nhandles s) \<Longrightarrow> wait_until_finished h s1 = None"
    using h p by (simp add: wait_until_finished_def Let_def)
  ultimately show ?thesis using h by blast
qed

theorem alveo_single_handle_witness:
  "execute_on_buffers ex_hw True None ex_inflight
     = Some (Inl (AssertionError ''Output DMA is already running''),
             log (Enter ''execute_on_buffers'') ex_inflight)
   \<and> (\<exists>s2. wait_until_finished ex_hw ex_inflight = Some (Inr (), s2)
           \<and> odma_handle s2 = None
           \<and> trace s2 = trace ex_inflight @ [Enter ''wait_until_finished'', HandleWait 0])"
proof -
  have p: "platform (ex_driver ''alveo'') = ''alveo''" by (simp add: ex_driver_def)
  have l: "execute_on_buffers ex_hw True None (ex_driver ''alveo'') = Some (Inr (), ex_inflight)"
    by (simp add: ex_alveo_launch ex_inflight_def)
  have f: "fits None ex_inflight" by (simp add: fits_def)
  have n: "nhandles (ex_driver ''alveo'') = 0" by (simp add: ex_driver_def)
  have g: "handle_signals ex_hw 0" by (simp add: ex_hw_def)
  from alveo_single_handle[OF p l] f g n show ?thesis by simp
qed

section \<open>Runs of the session\<close>

text \<open>
  Claim C10. When the shape of the input array differs from the expected normal input
  shape (the configured one with the batch size as leading dimension), \<^verbatim>\<open>execute\<close>
  fails with the assertion of \<^verbatim>\<open>fold_input\<close>; the only event of the run is the
  entry of \<^verbatim>\<open>fold_input\<close>: nothing was packed, copied or launched.
\<close>

theorem wrong_shape_fails_in_fold:
  assumes "ishape_normal s = Inr n" and "shape input_npy \<noteq> n"
  shows "execute lib h s input_npy =
           Some (Inl (AssertionError []), s\<lparr>trace := trace s @ [Enter ''fold_input'']\<rparr>)"
  using assms
  by (simp add: execute_def fold_input_def Let_def ishape_normal_def log_def)

theorem wrong_shape_fails_in_fold_witness:
  "execute spec_packer ex_hw (ex_driver ''zynq-iodma'') \<lparr>shape = [1, 7], elems = [1, 2, 3, 4, 5, 6, 7]\<rparr> =
     Some (Inl (AssertionError []), (ex_driver ''zynq-iodma'')\<lparr>trace := [Enter ''fold_input'']\<rparr>)"
proof -
  have a: "ishape_normal (ex_driver ''zynq-iodma'') = Inr [1, 8]"
    by (simp add: ishape_normal_def ex_driver_def ex_dict_def with_batch_def)
  from wrong_shape_fails_in_fold[OF a, of "\<lparr>shape = [1, 7], elems = [1, 2, 3, 4, 5, 6, 7]\<rparr>" spec_packer ex_hw]
  show ?thesis by (simp add: ex_driver_def)
qed




section \<open>Round trip of the bit packer\<close>

text \<open>
  Claim C1. With the packer of the specification, one datatype for input and output and
  the folded output shape equal to the shape of \<open>x\<close>: for every well-formed folded array
  \<open>x\<close> whose elements are representable in the bit width of the datatype,
  \<^verbatim>\<open>pack_input\<close> succeeds and \<^verbatim>\<open>unpack_output\<close> of the packed bytes is \<open>x\<close>
  again. Both directions reverse the inner dimension and the byte order.
\<close>

theorem pack_unpack_roundtrip:
  assumes "idt s = odt s" and "oshape_folded s = Inr (shape x)"
    and "0 < bitwidth (idt s)" and "well_formed x"
    and "\<forall>v\<in>set (elems x). representable (idt s) v"
  shows "\<exists>p s1. pack_input spec_packer s x = (Inr p, s1)
            \<and> fst (unpack_output spec_packer s1 p) = Inr x"
proof -
  from assms(2) have ne: "shape x \<noteq> []"
    by (auto simp: oshape_folded_def with_batch_def split: list.splits)
  from spec_roundtrip[OF assms(3) ne assms(4,5), of True True True True]
  obtain p where p: "spec_pack x (idt s) True True True = Inr p"
    and u: "spec_unpack p (idt s) (shape x) True True True = Inr x" by blast
  let ?s1 = "log (Enter ''pack_input'') s"
  have "pack_input spec_packer s x = (Inr p, ?s1)"
    using p by (simp add: pack_input_def spec_packer_def Let_def idt_def)
  moreover have "fst (unpack_output spec_packer ?s1 p) = Inr x"
    using u assms(1,2)
    by (simp add: unpack_output_def spec_packer_def Let_def idt_def odt_def oshape_folded_def)
  ultimately show ?thesis by blast
qed

theorem pack_unpack_roundtrip_witness:
  "\<exists>p s1. pack_input spec_packer (ex_driver ''alveo'')
             \<lparr>shape = [1, 2, 4], elems = [1, 2, 3, 4, 5, 6, 7, 8]\<rparr> = (Inr p, s1)
        \<and> fst (unpack_output spec_packer s1 p)
            = Inr \<lparr>shape = [1, 2, 4], elems = [1, 2, 3, 4, 5, 6, 7, 8]\<rparr>"
proof -
  let ?s = "ex_driver ''alveo''"
  let ?x = "\<lparr>shape = [1, 2, 4], elems = [1, 2, 3, 4, 5, 6, 7, 8]\<rparr>"
  have a: "idt ?s = odt ?s" by (simp add: idt_def odt_def ex_driver_def ex_dict_def)
  have b: "oshape_folded ?s = Inr (shape ?x)"
    by (simp add: oshape_folded_def with_batch_def ex_driver_def ex_dict_def)
  have c: "0 < bitwidth (idt ?s)" by (simp add: idt_def ex_driver_def ex_dict_def)
  have d: "well_formed ?x" by (simp add: well_formed_def)
  have e: "\<forall>v\<in>set (elems ?x). representable (idt ?s) v"
    by (simp add: representable_def idt_def ex_driver_def ex_dict_def)
  from pack_unpack_roundtrip[OF a b c d e] show ?thesis .
qed

section \<open>Changing the batch size\<close>

text \<open>
  Claim C4, as stated, fails. The setter of \<^verbatim>\<open>batch_size\<close> does not consult the
  engine: in the \<^verbatim>\<open>alveo\<close> session with a transfer in flight (a non-blocking launch
  has returned, the handle is held) it succeeds, drops both device buffers and allocates
  new ones.
\<close>

theorem resize_in_flight_counterexample:
  "execute_on_buffers ex_hw True None (ex_driver ''alveo'') = Some (Inr (), ex_inflight)
   \<and> odma_handle ex_inflight = Some 0
   \<and> batch_size_setter ex_hw 2 ex_inflight =
       (Inr (),
        ex_inflight
        \<lparr>batch_size := 2,
          ibuf_packed_device :=
            Some \<lparr>buf_id = 2, buf_shape = [2, 2, 2], cacheable = False,
                  device_address = 4098, buf_data = [0, 0, 0, 0, 0, 0, 0, 0]\<rparr>,
          obuf_packed_device :=
            Some \<lparr>buf_id = 3, buf_shape = [2, 2, 2], cacheable = False,
                  device_address = 4099, buf_data = [0, 0, 0, 0, 0, 0, 0, 0]\<rparr>,
          obuf_packed := Some \<lparr>shape = [2, 2, 2], elems = [0, 0, 0, 0, 0, 0, 0, 0]\<rparr>,
          nalloc := 4,
          trace := [Enter ''execute_on_buffers'', DmaStart IDMA 0 1, DmaStart ODMA 1 1,
                    Release 0, Release 1,
                    Allocate 2 [2, 2, 2] False, Allocate 3 [2, 2, 2] False]\<rparr>)"
proof (intro conjI)
  show "execute_on_buffers ex_hw True None (ex_driver ''alveo'') = Some (Inr (), ex_inflight)"
    by (simp add: ex_alveo_launch ex_inflight_def)
  show "odma_handle ex_inflight = Some 0"
    by (simp add: ex_inflight_def)
qed (simp add: ex_inflight_def ex_driver_def ex_dict_def ex_hw_def
        batch_size_setter_def Let_def drop_ibuf_def drop_obuf_def ishape_packed_def
        oshape_packed_def with_batch_def allocate_def log_def replicate_zeros)

text \<open>
  Claim C4, amended. In every state, with or without a transfer in flight, the setter
  stores the new batch size, drops the references to the device buffers it holds, and
  only then allocates a new input buffer and a new output buffer, with fresh identities and
  the new batch size as leading dimension, and a host output array of the new output
  shape. It reads no status register and leaves the handle as it is: the release of the old
  buffers is left to reference counting.
\<close>

theorem setter_drops_then_allocates:
  assumes "key_ishape_packed (io_shape_dict s) = a # as"
    and "key_oshape_packed (io_shape_dict s) = b # bs"
  shows "\<exists>s'. batch_size_setter h v s = (Inr (), s')
           \<and> trace s' = trace s @ released s
                 @ [Allocate (nalloc s) (v # as) (platform s \<noteq> ''alveo''),
                    Allocate (Suc (nalloc s)) (v # bs) (platform s \<noteq> ''alveo'')]
           \<and> batch_size s' = v
           \<and> map_option buf_id (ibuf_packed_device s') = Some (nalloc s)
           \<and> map_option buf_shape (ibuf_packed_device s') = Some (v # as)
           \<and> map_option buf_id (obuf_packed_device s') = Some (Suc (nalloc s))
           \<and> map_option buf_shape (obuf_packed_device s') = Some (v # bs)
           \<and> map_option shape (obuf_packed s') = Some (v # bs)
           \<and> nreads s' = nreads s \<and> odma_handle s' = odma_handle s"
  by (simp add: setter_result[OF assms])

theorem setter_drops_then_allocates_witness:
  "\<exists>s'. batch_size_setter ex_hw 2 ex_inflight = (Inr (), s')
       \<and> trace s' = [Enter ''execute_on_buffers'', DmaStart IDMA 0 1, DmaStart ODMA 1 1,
                    Release 0, Release 1,
                    Allocate 2 [2, 2, 2] False, Allocate 3 [2, 2, 2] False]
       \<and> odma_handle s' = Some 0"
proof -
  have a: "key_ishape_packed (io_shape_dict ex_inflight) = 1 # [2, 2]"
    and b: "key_oshape_packed (io_shape_dict ex_inflight) = 1 # [2, 2]"
    by (simp_all add: ex_inflight_def ex_driver_def ex_dict_def)
  from setter_drops_then_allocates[OF a b, of ex_hw 2] show ?thesis
    by (auto simp: ex_inflight_def ex_driver_def released_def)
qed

section \<open>Construction\<close>

text \<open>
  Claim C9, as stated, fails. The constructor accepts a shape dictionary whose folded
  shapes do not have the element counts of its normal shapes.
\<close>

theorem init_accepts_inconsistent_counterexample:
  "prod_list (key_ishape_normal ex_bad_dict) \<noteq> prod_list (key_ishape_folded ex_bad_dict)
   \<and> prod_list (key_oshape_normal ex_bad_dict) \<noteq> prod_list (key_oshape_folded ex_bad_dict)
   \<and> init ex_hw ''zynq-iodma'' ex_bad_dict 1 =
       Some (Inr (), (ex_driver ''zynq-iodma'')
          \<lparr>io_shape_dict := ex_bad_dict,
           trace := [Enter ''__init__'', Allocate 0 [1, 2, 2] True, Allocate 1 [1, 2, 2] True,
                     Enter ''load_runtime_weights'']\<rparr>)"
  by (simp add: init_def batch_size_setter_def Let_def drop_ibuf_def drop_obuf_def
        ishape_packed_def oshape_packed_def with_batch_def allocate_def log_def
        load_runtime_weights_def ex_bad_dict_def ex_dict_def ex_hw_def ex_driver_def
        replicate_zeros)

text \<open>
  Claim C9, amended. The constructor does not compare element counts. For every shape
  dictionary with non-empty packed shapes, consistent or not, it fails with the
  configuration error \<^verbatim>\<open>Supported platforms are zynq-iodma alveo\<close> when the platform
  is neither \<^verbatim>\<open>alveo\<close> nor \<^verbatim>\<open>zynq-iodma\<close>, and it succeeds when the platform is
  one of the two and there is no runtime weights directory.
\<close>

theorem init_checks_platform_only:
  assumes "key_ishape_packed d = a # as" and "key_oshape_packed d = b # bs"
  shows "(pf \<noteq> ''alveo'' \<and> pf \<noteq> ''zynq-iodma'' \<longrightarrow>
            (\<exists>s. init h pf d n =
                    Some (Inl (ValueError ''Supported platforms are zynq-iodma alveo''), s)))
       \<and> ((pf = ''alveo'' \<or> pf = ''zynq-iodma'') \<and> rt_weights h = None \<longrightarrow>
            (\<exists>s. init h pf d n = Some (Inr (), s) \<and> io_shape_dict s = d \<and> batch_size s = n))"
  by (auto simp: init_result[OF assms] load_runtime_weights_def Let_def)

theorem init_checks_platform_only_witness:
  "(\<exists>s. init ex_hw ''versal'' ex_bad_dict 1 =
                    Some (Inl (ValueError ''Supported platforms are zynq-iodma alveo''), s))
   \<and> (\<exists>s. init ex_hw ''alveo'' ex_bad_dict 1 = Some (Inr (), s)
           \<and> io_shape_dict s = ex_bad_dict \<and> batch_size s = 1)"
proof -
  have a: "key_ishape_packed ex_bad_dict = 1 # [2, 2]"
    and b: "key_oshape_packed ex_bad_dict = 1 # [2, 2]"
    by (simp_all add: ex_bad_dict_def ex_dict_def)
  have r: "rt_weights ex_hw = None" by (simp add: ex_hw_def)
  from init_checks_platform_only[OF a b, of "''versal''" ex_hw 1]
       init_checks_platform_only[OF a b, of "''alveo''" ex_hw 1] r
  show ?thesis by simp
qed

end
